theory Spec2Isabelle
  imports Main
begin

section \<open>Python values used by csv2md\<close>

text \<open>
  Strings are lists of characters. A Python call either returns a value (\<open>Inr\<close>) or
  raises an exception (\<open>Inl\<close>); \<open>exc_str\<close> is \<open>str(e)\<close>, the text an f-string
  inserts for \<open>{e}\<close>. \<open>KeyboardInterrupt\<close> and \<open>SystemExit\<close> derive from
  \<open>BaseException\<close> and not from \<open>Exception\<close>: a handler \<open>except Exception\<close> lets them
  pass, which \<open>is_Exception\<close> decides.
\<close>

type_synonym row = "string list"

datatype py_exception =
    TypeError string
  | csv_Error string
  | IOError string
  | OtherException string
  | KeyboardInterrupt
  | SystemExit string

fun exc_str :: "py_exception \<Rightarrow> string" where
  "exc_str (TypeError m) = m"
| "exc_str (csv_Error m) = m"
| "exc_str (IOError m) = m"
| "exc_str (OtherException m) = m"
| "exc_str KeyboardInterrupt = []"
| "exc_str (SystemExit m) = m"

fun is_Exception :: "py_exception \<Rightarrow> bool" where
  "is_Exception (TypeError m) = True"
| "is_Exception (csv_Error m) = True"
| "is_Exception (IOError m) = True"
| "is_Exception (OtherException m) = True"
| "is_Exception KeyboardInterrupt = False"
| "is_Exception (SystemExit m) = False"

definition LF :: char where "LF = CHR 0x0A"
definition CR :: char where "CR = CHR 0x0D"
definition quotechar :: char where "quotechar = CHR 0x22"

section \<open>The standard library's csv.reader\<close>

text \<open>
  \<open>csv_to_md_table\<close> parses with \<open>csv.reader(io.StringIO(csv_content), delimiter=delimiter)\<close>.
  The reader is the state machine of CPython's \<open>_csv\<close> module (\<open>parse_process_char\<close>,
  \<open>Reader_iternext\<close>), here with the attributes this call fixes, those of the \<open>excel\<close>
  dialect: quotechar \<open>"\<close>, doublequote on, no escapechar, skipinitialspace off,
  strict off, quoting \<open>QUOTE_MINIMAL\<close>. With no escapechar the three escape states
  of the C code are unreachable and are left out. The end-of-line marker \<open>EOL\<close>
  that the reader feeds itself after each line is \<open>None\<close>; a character of the line
  is \<open>Some c\<close>. The library is no part of csv2md's sources: the transitions, the
  field limit and the texts of the errors are those of CPython 3.11.
\<close>

datatype parser_state =
    START_RECORD
  | START_FIELD
  | IN_FIELD
  | IN_QUOTED_FIELD
  | QUOTE_IN_QUOTED_FIELD
  | EAT_CRNL

text \<open>\<open>ReaderObj\<close>: the parser state, the fields of the record being read (\<open>fields\<close> in C),
  and the characters of the field being read (\<open>field\<close>, of length \<open>field_len\<close>).\<close>

record reader =
  state :: parser_state
  row_fields :: "string list"
  field :: string

text \<open>\<open>csv.field_size_limit()\<close>, 128 * 1024 unless the program changes it (csv2md does not).\<close>

definition field_limit :: nat where
  "field_limit = 131072"

definition parse_reset :: reader where
  "parse_reset = \<lparr>state = START_RECORD, row_fields = [], field = []\<rparr>"

definition parse_save_field :: "reader \<Rightarrow> reader" where
  "parse_save_field self = self\<lparr>row_fields := row_fields self @ [field self], field := []\<rparr>"

definition parse_add_char :: "reader \<Rightarrow> char \<Rightarrow> py_exception + reader" where
  "parse_add_char self c =
     (if length (field self) \<ge> field_limit
      then Inl (csv_Error ''field larger than field limit (131072)'')
      else Inr (self\<lparr>field := field self @ [c]\<rparr>))"

text \<open>The body of \<open>case START_FIELD\<close>, which \<open>case START_RECORD\<close> falls through to.\<close>

definition start_field :: "char \<Rightarrow> reader \<Rightarrow> char option \<Rightarrow> py_exception + reader" where
  "start_field delimiter self c =
     (case c of
        None \<Rightarrow> Inr ((parse_save_field self)\<lparr>state := START_RECORD\<rparr>)
      | Some ch \<Rightarrow>
          if ch = LF \<or> ch = CR then Inr ((parse_save_field self)\<lparr>state := EAT_CRNL\<rparr>)
          else if ch = quotechar then Inr (self\<lparr>state := IN_QUOTED_FIELD\<rparr>)
          else if ch = delimiter then Inr (parse_save_field self)
          else (case parse_add_char self ch of
                  Inl e \<Rightarrow> Inl e
                | Inr self' \<Rightarrow> Inr (self'\<lparr>state := IN_FIELD\<rparr>)))"

definition parse_process_char :: "char \<Rightarrow> reader \<Rightarrow> char option \<Rightarrow> py_exception + reader" where
  "parse_process_char delimiter self c =
     (case state self of
        START_RECORD \<Rightarrow>
          (case c of
             None \<Rightarrow> Inr self
           | Some ch \<Rightarrow>
               if ch = LF \<or> ch = CR then Inr (self\<lparr>state := EAT_CRNL\<rparr>)
               else start_field delimiter (self\<lparr>state := START_FIELD\<rparr>) c)
      | START_FIELD \<Rightarrow> start_field delimiter self c
      | IN_FIELD \<Rightarrow>
          (case c of
             None \<Rightarrow> Inr ((parse_save_field self)\<lparr>state := START_RECORD\<rparr>)
           | Some ch \<Rightarrow>
               if ch = LF \<or> ch = CR then Inr ((parse_save_field self)\<lparr>state := EAT_CRNL\<rparr>)
               else if ch = delimiter then Inr ((parse_save_field self)\<lparr>state := START_FIELD\<rparr>)
               else parse_add_char self ch)
      | IN_QUOTED_FIELD \<Rightarrow>
          (case c of
             None \<Rightarrow> Inr self
           | Some ch \<Rightarrow>
               if ch = quotechar then Inr (self\<lparr>state := QUOTE_IN_QUOTED_FIELD\<rparr>)
               else parse_add_char self ch)
      | QUOTE_IN_QUOTED_FIELD \<Rightarrow>
          (case c of
             None \<Rightarrow> Inr ((parse_save_field self)\<lparr>state := START_RECORD\<rparr>)
           | Some ch \<Rightarrow>
               if ch = quotechar then
                 (case parse_add_char self ch of
                    Inl e \<Rightarrow> Inl e
                  | Inr self' \<Rightarrow> Inr (self'\<lparr>state := IN_QUOTED_FIELD\<rparr>))
               else if ch = delimiter then Inr ((parse_save_field self)\<lparr>state := START_FIELD\<rparr>)
               else if ch = LF \<or> ch = CR then Inr ((parse_save_field self)\<lparr>state := EAT_CRNL\<rparr>)
               else (case parse_add_char self ch of
                       Inl e \<Rightarrow> Inl e
                     | Inr self' \<Rightarrow> Inr (self'\<lparr>state := IN_FIELD\<rparr>)))
      | EAT_CRNL \<Rightarrow>
          (case c of
             None \<Rightarrow> Inr (self\<lparr>state := START_RECORD\<rparr>)
           | Some ch \<Rightarrow>
               if ch = LF \<or> ch = CR then Inr self
               else Inl (csv_Error
                 (''new-line character seen in unquoted field - do you need to open the file with newline=''
                  @ [CHR 0x27, CHR 0x27] @ ''?''))))"

text \<open>
  The loop of \<open>Reader_iternext\<close> over the characters of one line, followed by the
  \<open>EOL\<close> the reader sends after the line.
\<close>

fun process_chars :: "char \<Rightarrow> reader \<Rightarrow> string \<Rightarrow> py_exception + reader" where
  "process_chars delimiter self [] = Inr self"
| "process_chars delimiter self (c # cs) =
     (case parse_process_char delimiter self (Some c) of
        Inl e \<Rightarrow> Inl e
      | Inr self' \<Rightarrow> process_chars delimiter self' cs)"

definition process_line :: "char \<Rightarrow> reader \<Rightarrow> string \<Rightarrow> py_exception + reader" where
  "process_line delimiter self line =
     (case process_chars delimiter self line of
        Inl e \<Rightarrow> Inl e
      | Inr self' \<Rightarrow> parse_process_char delimiter self' None)"

text \<open>
  \<open>list(reader)\<close>: every call of \<open>Reader_iternext\<close> starts from \<open>parse_reset\<close> and reads
  lines until the state is \<open>START_RECORD\<close> again, then returns the fields as one row.
  When the lines run out, a record that has a pending field or is inside a quoted
  field is closed and returned (strict is off); otherwise the iteration stops.
\<close>

fun reader_rows :: "char \<Rightarrow> reader \<Rightarrow> string list \<Rightarrow> py_exception + row list" where
  "reader_rows delimiter self [] =
     (if field self \<noteq> [] \<or> state self = IN_QUOTED_FIELD
      then Inr [row_fields (parse_save_field self)]
      else Inr [])"
| "reader_rows delimiter self (line # lines) =
     (case process_line delimiter self line of
        Inl e \<Rightarrow> Inl e
      | Inr self' \<Rightarrow>
          if state self' = START_RECORD then
            (case reader_rows delimiter parse_reset lines of
               Inl e \<Rightarrow> Inl e
             | Inr rows \<Rightarrow> Inr (row_fields self' # rows))
          else reader_rows delimiter self' lines)"

text \<open>
  Iterating \<open>io.StringIO(csv_content)\<close> (newline translation off, the default of
  \<open>StringIO\<close>): the lines of the text, each with its terminating \<open>\n\<close>, the last one
  possibly without.
\<close>

fun StringIO_lines :: "string \<Rightarrow> string list" where
  "StringIO_lines [] = []"
| "StringIO_lines (c # cs) =
     (if c = LF then [c] # StringIO_lines cs
      else (case StringIO_lines cs of
              [] \<Rightarrow> [[c]]
            | l # ls \<Rightarrow> (c # l) # ls))"

text \<open>
  \<open>list(csv.reader(io.StringIO(csv_content), delimiter=delimiter))\<close>. Building the
  dialect raises \<open>TypeError\<close> unless the delimiter is a string of one character.
\<close>

definition csv_reader :: "string \<Rightarrow> string \<Rightarrow> py_exception + row list" where
  "csv_reader csv_content delimiter =
     (case delimiter of
        [d] \<Rightarrow> reader_rows d parse_reset (StringIO_lines csv_content)
      | _ \<Rightarrow> Inl (TypeError ([quotechar] @ ''delimiter'' @ [quotechar] @ '' must be a 1-character string'')))"

section \<open>csv2md.py\<close>

text \<open>\<open>sep.join(xs)\<close>\<close>

fun str_join :: "string \<Rightarrow> string list \<Rightarrow> string" where
  "str_join sep [] = []"
| "str_join sep [x] = x"
| "str_join sep (x # y # ys) = x @ sep @ str_join sep (y # ys)"

text \<open>\<open>"| " + " | ".join(cells) + " |"\<close>, the expression that renders every line of the table.\<close>

definition md_line :: "string list \<Rightarrow> string" where
  "md_line cells = ''| '' @ str_join '' | '' cells @ '' |''"

text \<open>
  The \<open>if\<close>/\<open>elif\<close> of the loop body: \<open>row.extend([""] * (len(header_row) - len(row)))\<close>
  or \<open>row = row[: len(header_row)]\<close>.
\<close>

definition fit_row :: "row \<Rightarrow> row \<Rightarrow> row" where
  "fit_row header_row row =
     (if length row < length header_row
      then row @ replicate (length header_row - length row) []
      else if length row > length header_row
      then take (length header_row) row
      else row)"

text \<open>The \<open>for row in rows[1:]\<close> loop, appending to \<open>data_rows\<close>.\<close>

fun data_rows_loop :: "row \<Rightarrow> row list \<Rightarrow> string list \<Rightarrow> string list" where
  "data_rows_loop header_row [] data_rows = data_rows"
| "data_rows_loop header_row (row # rest) data_rows =
     data_rows_loop header_row rest (data_rows @ [md_line (fit_row header_row row)])"

text \<open>The body of the \<open>try\<close> block of \<open>csv_to_md_table\<close>: it returns or raises.\<close>

definition csv_to_md_table_try :: "string \<Rightarrow> string \<Rightarrow> py_exception + string" where
  "csv_to_md_table_try csv_content delimiter =
     (case csv_reader csv_content delimiter of
        Inl e \<Rightarrow> Inl e
      | Inr rows \<Rightarrow>
          (case rows of
             [] \<Rightarrow> Inr ''Empty CSV data.''
           | header_row # rest \<Rightarrow>
               let header = md_line header_row;
                   separator = md_line (replicate (length header_row) ''---'');
                   data_rows = data_rows_loop header_row rest []
               in Inr (str_join [LF] ([header, separator] @ data_rows))))"

text \<open>
  \<open>csv_to_md_table\<close>: the \<open>try\<close> block with its handler
  \<open>except Exception as e: return f"An error occurred: {e}"\<close>, which catches the
  instances of \<open>Exception\<close> only.
\<close>

definition csv_to_md_table :: "string \<Rightarrow> string \<Rightarrow> py_exception + string" where
  "csv_to_md_table csv_content delimiter =
     (case csv_to_md_table_try csv_content delimiter of
        Inl e \<Rightarrow>
          if is_Exception e then Inr (''An error occurred: '' @ exc_str e) else Inl e
      | Inr md_table \<Rightarrow> Inr md_table)"

text \<open>
  \<open>read_csv_file\<close>. The argument is a path or a file object. What opening and reading
  the file at a path gives is the environment's, the parameter \<open>open_read\<close>: the text
  of the file, or the exception that \<open>open\<close>, \<open>read\<close> or the closing of the file raised.
  A file object carries what its \<open>read()\<close> gives. The handler is
  \<open>except Exception as e: raise IOError(f"Error occurred while reading CSV file: {e}")\<close>;
  an exception that is no \<open>Exception\<close> propagates as it is.
\<close>

datatype file_arg =
    Path string
  | FileObj "py_exception + string"

definition read_csv_file :: "(string \<Rightarrow> py_exception + string) \<Rightarrow> file_arg \<Rightarrow> py_exception + string" where
  "read_csv_file open_read file_path_or_obj =
     (case (case file_path_or_obj of
              Path p \<Rightarrow> open_read p
            | FileObj rd \<Rightarrow> rd) of
        Inl e \<Rightarrow>
          if is_Exception e
          then Inl (IOError (''Error occurred while reading CSV file: '' @ exc_str e))
          else Inl e
      | Inr text \<Rightarrow> Inr text)"

section \<open>Notions used to state the properties of the reader\<close>

text \<open>
  \<open>feed_lines\<close> is \<open>reader_rows\<close> stopped where the lines run out: the rows completed
  so far and the reader as it stands then. The reader is \<open>parse_reset\<close> there exactly
  when the lines read so far are complete records (no quoted field is open).
\<close>

fun feed_lines :: "char \<Rightarrow> reader \<Rightarrow> string list \<Rightarrow> py_exception + (row list \<times> reader)" where
  "feed_lines delimiter self [] = Inr ([], self)"
| "feed_lines delimiter self (line # lines) =
     (case process_line delimiter self line of
        Inl e \<Rightarrow> Inl e
      | Inr self' \<Rightarrow>
          if state self' = START_RECORD then
            (case feed_lines delimiter parse_reset lines of
               Inl e \<Rightarrow> Inl e
             | Inr (rows, self'') \<Rightarrow> Inr (row_fields self' # rows, self''))
          else feed_lines delimiter self' lines)"

text \<open>
  The lines still to read when the reader is inside a line and \<open>cs\<close> is the text that
  follows: at the end of the text the current line ends there.
\<close>

definition mid_lines :: "string \<Rightarrow> string list" where
  "mid_lines cs = (if cs = [] then [[]] else StringIO_lines cs)"

text \<open>
  A field written between double quotes, each double quote of the field doubled, as
  CSV writers do (\<open>csv.writer\<close> with \<open>QUOTE_ALL\<close>).
\<close>

definition quote_field :: "string \<Rightarrow> string" where
  "quote_field s =
     quotechar # concat (map (\<lambda>c. if c = quotechar then [quotechar, quotechar] else [c]) s)
       @ [quotechar]"

text \<open>
  A field as it is written in a line: unquoted, the text itself, or quoted. An
  unquoted field is well written when it contains no delimiter and no line end and
  does not begin with a double quote; a quoted field may contain anything.
  \<open>field_cell\<close> is the cell the field stands for.
\<close>

datatype written_field =
    Unquoted string
  | Quoted string

fun field_text :: "written_field \<Rightarrow> string" where
  "field_text (Unquoted f) = f"
| "field_text (Quoted s) = quote_field s"

fun field_cell :: "written_field \<Rightarrow> string" where
  "field_cell (Unquoted f) = f"
| "field_cell (Quoted s) = s"

fun well_written :: "char \<Rightarrow> written_field \<Rightarrow> bool" where
  "well_written delimiter (Unquoted f) =
     (delimiter \<notin> set f \<and> LF \<notin> set f \<and> CR \<notin> set f \<and> (f = [] \<or> hd f \<noteq> quotechar))"
| "well_written delimiter (Quoted s) = True"

section \<open>Properties of the renderer\<close>

lemmas reader_defs = csv_reader_def process_line_def parse_process_char_def start_field_def
  parse_add_char_def parse_save_field_def parse_reset_def field_limit_def LF_def CR_def quotechar_def

lemmas table_defs = csv_to_md_table_def csv_to_md_table_try_def md_line_def fit_row_def

lemma data_rows_loop_map:
  "data_rows_loop header_row rest data_rows =
     data_rows @ map (\<lambda>row. md_line (fit_row header_row row)) rest"
  by (induction rest arbitrary: data_rows) simp_all

lemma length_fit_row: "length (fit_row header_row row) = length header_row"
  by (simp add: fit_row_def)

lemma fit_row_take:
  "fit_row header_row row =
     take (length header_row) (row @ replicate (length header_row - length row) [])"
  by (simp add: fit_row_def)

lemma csv_to_md_table_rows:
  assumes "csv_reader csv_content delimiter = Inr (header_row # rest)"
  shows "csv_to_md_table csv_content delimiter =
     Inr (str_join [LF] ([md_line header_row, md_line (replicate (length header_row) ''---'')]
       @ data_rows_loop header_row rest []))"
  using assms by (simp add: csv_to_md_table_def csv_to_md_table_try_def)

lemma count_str_join:
  "cells \<noteq> [] \<Longrightarrow>
     count_list (str_join '' | '' cells) CHR ''|'' + 1 =
       length cells + count_list (concat cells) CHR ''|''"
  by (induction "'' | ''" cells rule: str_join.induct) simp_all

lemma count_md_line:
  "cells \<noteq> [] \<Longrightarrow>
     count_list (md_line cells) CHR ''|'' = length cells + 1 + count_list (concat cells) CHR ''|''"
  using count_str_join [of cells] by (simp add: md_line_def)

text \<open>
  Claim C1. Whenever parsing with a one-character delimiter yields a header row of
  at least one cell, the result is the header line, the separator line and one data
  line per data row, joined by newlines; data line \<open>i\<close> renders a list of exactly
  \<open>length header_row\<close> cells, the row padded with empty cells or cut to its first
  cells. The line then has one \<open>|\<close> more than the header has cells, beyond the \<open>|\<close>
  that the cells themselves contain.
\<close>

theorem data_lines_have_header_width:
  assumes "csv_reader csv_content [d] = Inr (header_row # rest)"
    and "length header_row \<ge> 1"
    and "i < length rest"
  shows "csv_to_md_table csv_content [d] =
           Inr (str_join [LF] ([md_line header_row, md_line (replicate (length header_row) ''---'')]
             @ data_rows_loop header_row rest []))
    \<and> length (data_rows_loop header_row rest []) = length rest
    \<and> data_rows_loop header_row rest [] ! i = md_line (fit_row header_row (rest ! i))
    \<and> length (fit_row header_row (rest ! i)) = length header_row
    \<and> fit_row header_row (rest ! i) =
           take (length header_row) (rest ! i @ replicate (length header_row - length (rest ! i)) [])
    \<and> count_list (data_rows_loop header_row rest [] ! i) CHR ''|'' =
           length header_row + 1 + count_list (concat (fit_row header_row (rest ! i))) CHR ''|''"
proof -
  have line: "data_rows_loop header_row rest [] ! i = md_line (fit_row header_row (rest ! i))"
    using assms(3) by (simp add: data_rows_loop_map)
  have "fit_row header_row (rest ! i) \<noteq> []"
    using assms(2) length_fit_row [of header_row "rest ! i"] by auto
  then have "count_list (data_rows_loop header_row rest [] ! i) CHR ''|'' =
           length header_row + 1 + count_list (concat (fit_row header_row (rest ! i))) CHR ''|''"
    by (simp add: line count_md_line length_fit_row)
  moreover have "length (data_rows_loop header_row rest []) = length rest"
    by (simp add: data_rows_loop_map)
  moreover note line csv_to_md_table_rows [OF assms(1)] length_fit_row [of header_row "rest ! i"]
    fit_row_take [of header_row "rest ! i"]
  ultimately show ?thesis by blast
qed

theorem data_lines_have_header_width_witness:
  "csv_reader ''Name,Age,City\<newline>John,30\<newline>Jane,25,Los Angeles,USA'' '','' =
     Inr ([''Name'', ''Age'', ''City''] # [[''John'', ''30''], [''Jane'', ''25'', ''Los Angeles'', ''USA'']])
   \<and> length [''Name'', ''Age'', ''City''] \<ge> 1
   \<and> (1::nat) < length [[''John'', ''30''], [''Jane'', ''25'', ''Los Angeles'', ''USA'']]
   \<and> csv_to_md_table ''Name,Age,City\<newline>John,30\<newline>Jane,25,Los Angeles,USA'' '','' =
       Inr ''| Name | Age | City |\<newline>| --- | --- | --- |\<newline>| John | 30 |  |\<newline>| Jane | 25 | Los Angeles |''
   \<and> data_rows_loop [''Name'', ''Age'', ''City'']
         [[''John'', ''30''], [''Jane'', ''25'', ''Los Angeles'', ''USA'']] [] ! 1 = ''| Jane | 25 | Los Angeles |''
   \<and> count_list ''| Jane | 25 | Los Angeles |'' CHR ''|'' = 4"
proof -
  have h1: "csv_reader ''Name,Age,City\<newline>John,30\<newline>Jane,25,Los Angeles,USA'' '','' =
     Inr ([''Name'', ''Age'', ''City''] # [[''John'', ''30''], [''Jane'', ''25'', ''Los Angeles'', ''USA'']])"
    by (simp add: reader_defs)
  have h2: "length [''Name'', ''Age'', ''City''] \<ge> 1" by simp
  have h3: "(1::nat) < length [[''John'', ''30''], [''Jane'', ''25'', ''Los Angeles'', ''USA'']]" by simp
  show ?thesis
    using h1 data_lines_have_header_width [OF h1 h2 h3]
    by (simp add: md_line_def fit_row_def LF_def)
qed

text \<open>
  What the \<open>try\<close> block of \<open>csv_to_md_table\<close> can raise is the reader's \<open>csv.Error\<close> or
  \<open>TypeError\<close>, both instances of \<open>Exception\<close>.
\<close>

lemma parse_process_char_raises:
  "parse_process_char d r c = Inl e \<Longrightarrow> \<exists>m. e = csv_Error m"
  by (auto simp: parse_process_char_def start_field_def parse_add_char_def
      split: parser_state.splits option.splits if_splits sum.splits)

lemma process_chars_raises:
  "process_chars d r cs = Inl e \<Longrightarrow> \<exists>m. e = csv_Error m"
  by (induction cs arbitrary: r) (auto split: sum.splits dest: parse_process_char_raises)

lemma process_line_raises:
  "process_line d r line = Inl e \<Longrightarrow> \<exists>m. e = csv_Error m"
  by (auto simp: process_line_def split: sum.splits
      dest: process_chars_raises parse_process_char_raises)

lemma reader_rows_raises:
  "reader_rows d r ls = Inl e \<Longrightarrow> \<exists>m. e = csv_Error m"
  by (induction ls arbitrary: r) (auto split: sum.splits if_splits dest: process_line_raises)

lemma csv_reader_raises:
  "csv_reader csv_content delimiter = Inl e \<Longrightarrow> is_Exception e"
  by (auto simp: csv_reader_def split: list.splits dest: reader_rows_raises)

lemma csv_to_md_table_try_raises:
  "csv_to_md_table_try csv_content delimiter = Inl e \<Longrightarrow> is_Exception e"
  by (auto simp: csv_to_md_table_try_def split: sum.splits list.splits dest: csv_reader_raises)

text \<open>
  Claim C2. For every input string and every delimiter string \<open>csv_to_md_table\<close>
  returns: it never raises. When the body of its \<open>try\<close> block raises \<open>e\<close>, what it
  returns is \<open>"An error occurred: "\<close> followed by \<open>str(e)\<close>.
\<close>

theorem csv_to_md_table_never_raises:
  "\<exists>s. csv_to_md_table csv_content delimiter = Inr s
     \<and> (\<forall>e. csv_to_md_table_try csv_content delimiter = Inl e
            \<longrightarrow> s = ''An error occurred: '' @ exc_str e)"
proof (cases "csv_to_md_table_try csv_content delimiter")
  case (Inl e)
  then have "is_Exception e" by (rule csv_to_md_table_try_raises)
  with Inl show ?thesis by (simp add: csv_to_md_table_def)
next
  case (Inr md_table)
  then show ?thesis by (simp add: csv_to_md_table_def)
qed

theorem csv_to_md_table_never_raises_witness:
  "csv_to_md_table_try (''a'' @ [CR] @ ''b'') '','' =
     Inl (csv_Error (''new-line character seen in unquoted field - do you need to open the file with newline=''
       @ [CHR 0x27, CHR 0x27] @ ''?''))
   \<and> csv_to_md_table (''a'' @ [CR] @ ''b'') '','' =
     Inr (''An error occurred: new-line character seen in unquoted field - do you need to open the file with newline=''
       @ [CHR 0x27, CHR 0x27] @ ''?'')"
proof -
  have h: "csv_to_md_table_try (''a'' @ [CR] @ ''b'') '','' =
     Inl (csv_Error (''new-line character seen in unquoted field - do you need to open the file with newline=''
       @ [CHR 0x27, CHR 0x27] @ ''?''))"
    by (simp add: csv_to_md_table_try_def reader_defs)
  show ?thesis
    using h csv_to_md_table_never_raises [of "''a'' @ [CR] @ ''b''" "'',''"] by auto
qed

text \<open>
  Claim C3. The empty input with the comma delimiter gives exactly
  \<open>"Empty CSV data."\<close>, and so does every input and delimiter for which parsing
  yields no row.
\<close>

theorem empty_input_sentinel:
  "csv_to_md_table '''' '','' = Inr ''Empty CSV data.''
   \<and> (\<forall>csv_content delimiter. csv_reader csv_content delimiter = Inr []
          \<longrightarrow> csv_to_md_table csv_content delimiter = Inr ''Empty CSV data.'')"
  by (simp add: csv_to_md_table_def csv_to_md_table_try_def csv_reader_def parse_reset_def)

theorem empty_input_sentinel_witness:
  "csv_reader '''' '';'' = Inr [] \<and> csv_to_md_table '''' '';'' = Inr ''Empty CSV data.''"
proof -
  have h: "csv_reader '''' '';'' = Inr []"
    by (simp add: csv_reader_def parse_reset_def)
  show ?thesis
    using h empty_input_sentinel by blast
qed

text \<open>
  Claim C4. The header-only input \<open>Name,Age,City\<close> with the comma delimiter gives the
  header line and the separator line of three \<open>---\<close> cells, joined by one newline,
  with no data line and no trailing newline.
\<close>

theorem header_only_table:
  "csv_to_md_table ''Name,Age,City'' '','' =
     Inr ''| Name | Age | City |\<newline>| --- | --- | --- |''"
  by (simp add: table_defs reader_defs)

text \<open>
  Claim C5. A data row with fewer cells than the header is rendered as the row
  followed by as many empty cells as it lacks, a list of exactly the header's
  length. On \<open>Name,Age,City\nJohn,30\<close> the data line is \<open>| John | 30 |  |\<close>.
\<close>

theorem short_row_padded:
  "(\<forall>csv_content delimiter header_row rest i.
      csv_reader csv_content delimiter = Inr (header_row # rest)
      \<and> i < length rest \<and> length (rest ! i) < length header_row
      \<longrightarrow> csv_to_md_table csv_content delimiter =
            Inr (str_join [LF] ([md_line header_row, md_line (replicate (length header_row) ''---'')]
              @ data_rows_loop header_row rest []))
        \<and> data_rows_loop header_row rest [] ! i =
            md_line (rest ! i @ replicate (length header_row - length (rest ! i)) '''')
        \<and> length (rest ! i @ replicate (length header_row - length (rest ! i)) '''') =
            length header_row)
   \<and> csv_to_md_table ''Name,Age,City\<newline>John,30'' '','' =
       Inr ''| Name | Age | City |\<newline>| --- | --- | --- |\<newline>| John | 30 |  |''"
proof (intro conjI allI impI)
  fix csv_content delimiter header_row rest and i :: nat
  assume a: "csv_reader csv_content delimiter = Inr (header_row # rest)
      \<and> i < length rest \<and> length (rest ! i) < length header_row"
  show "csv_to_md_table csv_content delimiter =
            Inr (str_join [LF] ([md_line header_row, md_line (replicate (length header_row) ''---'')]
              @ data_rows_loop header_row rest []))"
    using a by (simp add: csv_to_md_table_rows)
  show "data_rows_loop header_row rest [] ! i =
            md_line (rest ! i @ replicate (length header_row - length (rest ! i)) '''')"
    using a by (simp add: data_rows_loop_map fit_row_def)
  show "length (rest ! i @ replicate (length header_row - length (rest ! i)) '''') =
            length header_row"
    using a by simp
next
  show "csv_to_md_table ''Name,Age,City\<newline>John,30'' '','' =
       Inr ''| Name | Age | City |\<newline>| --- | --- | --- |\<newline>| John | 30 |  |''"
    by (simp add: table_defs reader_defs)
qed

theorem short_row_padded_witness:
  "csv_reader ''Name,Age,City\<newline>John,30'' '','' =
     Inr ([''Name'', ''Age'', ''City''] # [[''John'', ''30'']])
   \<and> data_rows_loop [''Name'', ''Age'', ''City''] [[''John'', ''30'']] [] ! 0 =
       md_line [''John'', ''30'', '''']
   \<and> md_line [''John'', ''30'', ''''] = ''| John | 30 |  |''"
proof -
  have h: "csv_reader ''Name,Age,City\<newline>John,30'' '','' =
     Inr ([''Name'', ''Age'', ''City''] # [[''John'', ''30'']])"
    by (simp add: reader_defs)
  have "data_rows_loop [''Name'', ''Age'', ''City''] [[''John'', ''30'']] [] ! 0 =
       md_line ([[''John'', ''30'']] ! 0
         @ replicate (length [''Name'', ''Age'', ''City''] - length ([[''John'', ''30'']] ! 0)) '''')"
    using h short_row_padded by fastforce
  then show ?thesis
    using h by (simp add: md_line_def)
qed

text \<open>
  Claim C6. A data row with more cells than the header is rendered as its first
  cells, as many as the header has. On \<open>Name,Age,City\nJane,25,Los Angeles,USA\<close> the
  data line is \<open>| Jane | 25 | Los Angeles |\<close>.
\<close>

theorem long_row_truncated:
  "(\<forall>csv_content delimiter header_row rest i.
      csv_reader csv_content delimiter = Inr (header_row # rest)
      \<and> i < length rest \<and> length (rest ! i) > length header_row
      \<longrightarrow> csv_to_md_table csv_content delimiter =
            Inr (str_join [LF] ([md_line header_row, md_line (replicate (length header_row) ''---'')]
              @ data_rows_loop header_row rest []))
        \<and> data_rows_loop header_row rest [] ! i = md_line (take (length header_row) (rest ! i))
        \<and> length (take (length header_row) (rest ! i)) = length header_row)
   \<and> csv_to_md_table ''Name,Age,City\<newline>Jane,25,Los Angeles,USA'' '','' =
       Inr ''| Name | Age | City |\<newline>| --- | --- | --- |\<newline>| Jane | 25 | Los Angeles |''"
proof (intro conjI allI impI)
  fix csv_content delimiter header_row rest and i :: nat
  assume a: "csv_reader csv_content delimiter = Inr (header_row # rest)
      \<and> i < length rest \<and> length (rest ! i) > length header_row"
  show "csv_to_md_table csv_content delimiter =
            Inr (str_join [LF] ([md_line header_row, md_line (replicate (length header_row) ''---'')]
              @ data_rows_loop header_row rest []))"
    using a by (simp add: csv_to_md_table_rows)
  show "data_rows_loop header_row rest [] ! i = md_line (take (length header_row) (rest ! i))"
    using a by (simp add: data_rows_loop_map fit_row_def)
  show "length (take (length header_row) (rest ! i)) = length header_row"
    using a by simp
next
  show "csv_to_md_table ''Name,Age,City\<newline>Jane,25,Los Angeles,USA'' '','' =
       Inr ''| Name | Age | City |\<newline>| --- | --- | --- |\<newline>| Jane | 25 | Los Angeles |''"
    by (simp add: table_defs reader_defs)
qed

theorem long_row_truncated_witness:
  "csv_reader ''Name,Age,City\<newline>Jane,25,Los Angeles,USA'' '','' =
     Inr ([''Name'', ''Age'', ''City''] # [[''Jane'', ''25'', ''Los Angeles'', ''USA'']])
   \<and> data_rows_loop [''Name'', ''Age'', ''City'']
        [[''Jane'', ''25'', ''Los Angeles'', ''USA'']] [] ! 0 =
       md_line [''Jane'', ''25'', ''Los Angeles'']
   \<and> md_line [''Jane'', ''25'', ''Los Angeles''] = ''| Jane | 25 | Los Angeles |''"
proof -
  have h: "csv_reader ''Name,Age,City\<newline>Jane,25,Los Angeles,USA'' '','' =
     Inr ([''Name'', ''Age'', ''City''] # [[''Jane'', ''25'', ''Los Angeles'', ''USA'']])"
    by (simp add: reader_defs)
  have "data_rows_loop [''Name'', ''Age'', ''City'']
        [[''Jane'', ''25'', ''Los Angeles'', ''USA'']] [] ! 0 =
       md_line (take (length [''Name'', ''Age'', ''City''])
         ([[''Jane'', ''25'', ''Los Angeles'', ''USA'']] ! 0))"
    using h long_row_truncated by fastforce
  then show ?thesis
    using h by (simp add: md_line_def)
qed

text \<open>
  Claim C8, as amended. When opening or reading the source raises an instance \<open>e\<close> of
  \<open>Exception\<close>, \<open>read_csv_file\<close> raises an \<open>IOError\<close> whose message ends with \<open>str(e)\<close>;
  an exception that is no instance of \<open>Exception\<close> (\<open>KeyboardInterrupt\<close>,
  \<open>SystemExit\<close>) propagates unchanged; when the read returns the text,
  \<open>read_csv_file\<close> returns that text. This holds for a path and for a file object.
\<close>

theorem read_csv_file_result:
  "(open_read p = Inl e \<and> is_Exception e \<longrightarrow>
      read_csv_file open_read (Path p) =
        Inl (IOError (''Error occurred while reading CSV file: '' @ exc_str e)))
   \<and> (open_read p = Inl e \<and> \<not> is_Exception e \<longrightarrow>
      read_csv_file open_read (Path p) = Inl e)
   \<and> (open_read p = Inr content \<longrightarrow> read_csv_file open_read (Path p) = Inr content)
   \<and> (is_Exception e \<longrightarrow>
      read_csv_file open_read (FileObj (Inl e)) =
        Inl (IOError (''Error occurred while reading CSV file: '' @ exc_str e)))
   \<and> (\<not> is_Exception e \<longrightarrow> read_csv_file open_read (FileObj (Inl e)) = Inl e)
   \<and> read_csv_file open_read (FileObj (Inr content)) = Inr content"
  by (simp add: read_csv_file_def)

theorem read_csv_file_result_witness:
  "read_csv_file (\<lambda>p. if p = ''data.csv'' then Inr ''a,b'' else Inl (OtherException ''No such file''))
      (Path ''missing.csv'') =
     Inl (IOError ''Error occurred while reading CSV file: No such file'')
   \<and> read_csv_file (\<lambda>p. if p = ''data.csv'' then Inr ''a,b'' else Inl (OtherException ''No such file''))
      (Path ''data.csv'') = Inr ''a,b''
   \<and> read_csv_file (\<lambda>p. if p = ''data.csv'' then Inr ''a,b'' else Inl (OtherException ''No such file''))
      (FileObj (Inl (SystemExit ''1''))) = Inl (SystemExit ''1'')"
  using read_csv_file_result
    [of "\<lambda>p. if p = ''data.csv'' then Inr ''a,b'' else Inl (OtherException ''No such file'')"
        "''missing.csv''" "OtherException ''No such file''" "''a,b''"]
    read_csv_file_result
    [of "\<lambda>p. if p = ''data.csv'' then Inr ''a,b'' else Inl (OtherException ''No such file'')"
        "''data.csv''" "SystemExit ''1''" "''a,b''"]
  by simp

text \<open>
  The claim as first stated, for a read that fails for any reason, fails when the
  reason is no \<open>Exception\<close>: a \<open>KeyboardInterrupt\<close> raised by the \<open>read()\<close> of a file
  object (\<open>read_csv_file(sys.stdin)\<close> interrupted) comes out as it is, not as an
  \<open>IOError\<close>.
\<close>

theorem read_csv_file_interrupt_counterexample:
  "read_csv_file (Inl \<circ> OtherException) (FileObj (Inl KeyboardInterrupt)) = Inl KeyboardInterrupt
   \<and> read_csv_file (Inl \<circ> OtherException) (FileObj (Inl KeyboardInterrupt)) \<noteq>
       Inl (IOError (''Error occurred while reading CSV file: '' @ exc_str KeyboardInterrupt))"
  by (simp add: read_csv_file_def)

text \<open>
  Claim C10. With a delimiter that is not exactly one character, for every input
  string, empty or not, the reader's \<open>TypeError\<close> is caught: \<open>csv_to_md_table\<close> returns
  \<open>"An error occurred: "\<close> followed by the error's message, which is no table (a
  table starts with \<open>|\<close>).
\<close>

theorem bad_delimiter_reported:
  assumes "length delimiter \<noteq> 1"
  shows "csv_to_md_table_try csv_content delimiter =
           Inl (TypeError ([quotechar] @ ''delimiter'' @ [quotechar] @ '' must be a 1-character string''))
    \<and> csv_to_md_table csv_content delimiter =
           Inr (''An error occurred: '' @ [quotechar] @ ''delimiter'' @ [quotechar]
             @ '' must be a 1-character string'')
    \<and> (\<forall>cells rest. csv_to_md_table csv_content delimiter \<noteq> Inr (md_line cells @ rest))"
proof -
  have "csv_reader csv_content delimiter =
      Inl (TypeError ([quotechar] @ ''delimiter'' @ [quotechar] @ '' must be a 1-character string''))"
    using assms by (cases delimiter rule: remdups_adj.cases) (simp_all add: csv_reader_def)
  then show ?thesis
    by (simp add: csv_to_md_table_def csv_to_md_table_try_def md_line_def)
qed

theorem bad_delimiter_reported_witness:
  "length '';;'' \<noteq> 1
   \<and> csv_to_md_table ''Name;;Age'' '';;'' =
       Inr (''An error occurred: '' @ [quotechar] @ ''delimiter'' @ [quotechar]
         @ '' must be a 1-character string'')
   \<and> csv_to_md_table ''Name,Age'' '''' =
       Inr (''An error occurred: '' @ [quotechar] @ ''delimiter'' @ [quotechar]
         @ '' must be a 1-character string'')"
proof -
  have h1: "length '';;'' \<noteq> 1" by simp
  have h2: "length '''' \<noteq> 1" by simp
  show ?thesis
    using h1 bad_delimiter_reported [OF h1, of "''Name;;Age''"]
      bad_delimiter_reported [OF h2, of "''Name,Age''"]
    by simp
qed

section \<open>Properties of the reader\<close>

lemmas step_defs = parse_process_char_def start_field_def parse_add_char_def parse_save_field_def

lemma StringIO_lines_eq_Nil [simp]: "StringIO_lines cs = [] \<longleftrightarrow> cs = []"
  by (cases cs) (auto split: list.splits)

lemma reader_rows_Cons_char:
  "reader_rows d r ((c # l) # ls) =
     (case parse_process_char d r (Some c) of
        Inl e \<Rightarrow> Inl e
      | Inr r' \<Rightarrow> reader_rows d r' (l # ls))"
  by (simp add: process_line_def split: sum.splits)

lemma reader_rows_EOL:
  "reader_rows d r ([] # ls) =
     (case parse_process_char d r None of
        Inl e \<Rightarrow> Inl e
      | Inr r' \<Rightarrow>
          if state r' = START_RECORD then
            (case reader_rows d parse_reset ls of
               Inl e \<Rightarrow> Inl e
             | Inr rows \<Rightarrow> Inr (row_fields r' # rows))
          else reader_rows d r' ls)"
  by (simp add: process_line_def)

lemma mid_lines_Cons:
  "mid_lines (c # cs) = (if c = LF then [c] # StringIO_lines cs
                         else (c # hd (mid_lines cs)) # tl (mid_lines cs))"
  by (auto simp: mid_lines_def split: list.splits)

lemma mid_lines_not_Nil [simp]: "mid_lines cs \<noteq> []"
  by (simp add: mid_lines_def)

lemma reader_rows_mid_Cons:
  "reader_rows d r (mid_lines (c # cs)) =
     (case parse_process_char d r (Some c) of
        Inl e \<Rightarrow> Inl e
      | Inr r' \<Rightarrow> if c = LF then reader_rows d r' ([] # StringIO_lines cs)
                  else reader_rows d r' (mid_lines cs))"
proof (cases "c = LF")
  case True
  then show ?thesis
    by (simp add: mid_lines_Cons reader_rows_Cons_char del: reader_rows.simps split: sum.splits)
next
  case False
  obtain l ls where m: "mid_lines cs = l # ls"
    by (cases "mid_lines cs") simp_all
  with False show ?thesis
    by (simp add: mid_lines_Cons reader_rows_Cons_char del: reader_rows.simps split: sum.splits)
qed

lemma reader_rows_mid_Nil:
  "reader_rows d r (mid_lines []) = reader_rows d r [[]]"
  by (simp add: mid_lines_def)


lemma special_chars_distinct [simp]:
  "LF \<noteq> CR" "CR \<noteq> LF" "LF \<noteq> quotechar" "quotechar \<noteq> LF" "CR \<noteq> quotechar" "quotechar \<noteq> CR"
  by (simp_all add: LF_def CR_def quotechar_def)

lemma parse_process_char_appends:
  "parse_process_char d r c = Inr r' \<Longrightarrow> \<exists>zs. row_fields r' = row_fields r @ zs"
  by (auto simp: step_defs split: parser_state.splits option.splits if_splits sum.splits)

lemma parse_process_char_EOL:
  "parse_process_char d r None = Inr r' \<Longrightarrow>
     state r' = START_RECORD \<or> (state r' = IN_QUOTED_FIELD \<and> r' = r)"
  by (auto simp: step_defs split: parser_state.splits)

lemma reader_rows_extends:
  "reader_rows d r (mid_lines cs) = Inr rows \<Longrightarrow> \<exists>ys rest. rows = (row_fields r @ ys) # rest"
proof (induction cs arbitrary: r rows)
  case Nil
  then show ?case
    by (auto simp: reader_rows_mid_Nil reader_rows_EOL step_defs parse_reset_def
        simp del: reader_rows.simps(2)
        split: parser_state.splits sum.splits if_splits)
next
  case (Cons c cs)
  from Cons.prems obtain r' where
    step: "parse_process_char d r (Some c) = Inr r'" and
    rest: "(if c = LF then reader_rows d r' ([] # StringIO_lines cs)
            else reader_rows d r' (mid_lines cs)) = Inr rows"
    by (auto simp: reader_rows_mid_Cons split: sum.splits)
  from step obtain zs where zs: "row_fields r' = row_fields r @ zs"
    using parse_process_char_appends by blast
  show ?case
  proof (cases "c = LF")
    case False
    with rest have "reader_rows d r' (mid_lines cs) = Inr rows" by simp
    from Cons.IH [OF this] zs show ?thesis by auto
  next
    case True
    with rest have eol: "reader_rows d r' ([] # StringIO_lines cs) = Inr rows" by simp
    then obtain r'' where
      step2: "parse_process_char d r' None = Inr r''"
      by (auto simp: reader_rows_EOL simp del: reader_rows.simps(2) split: sum.splits)
    from step2 obtain zs' where zs': "row_fields r'' = row_fields r' @ zs'"
      using parse_process_char_appends by blast
    from parse_process_char_EOL [OF step2] show ?thesis
    proof
      assume "state r'' = START_RECORD"
      with eol step2 zs zs' show ?thesis
        by (auto simp: reader_rows_EOL simp del: reader_rows.simps(2) split: sum.splits)
    next
      assume q: "state r'' = IN_QUOTED_FIELD \<and> r'' = r'"
      with eol step2 have cont: "reader_rows d r' (StringIO_lines cs) = Inr rows"
        by (auto simp: reader_rows_EOL simp del: reader_rows.simps(2) split: sum.splits)
      show ?thesis
      proof (cases "cs = []")
        case True
        with cont q zs show ?thesis by (auto simp: parse_save_field_def)
      next
        case False
        with cont have "reader_rows d r' (mid_lines cs) = Inr rows"
          by (simp add: mid_lines_def)
        from Cons.IH [OF this] zs show ?thesis by auto
      qed
    qed
  qed
qed

lemma reader_rows_append:
  "reader_rows d r (ls1 @ ls2) =
     (case feed_lines d r ls1 of
        Inl e \<Rightarrow> Inl e
      | Inr (rows1, r1) \<Rightarrow>
          (case reader_rows d r1 ls2 of
             Inl e \<Rightarrow> Inl e
           | Inr rows2 \<Rightarrow> Inr (rows1 @ rows2)))"
  by (induction ls1 arbitrary: r) (auto split: sum.splits)

lemma StringIO_lines_append:
  "pre = [] \<or> last pre = LF \<Longrightarrow>
     StringIO_lines (pre @ post) = StringIO_lines pre @ StringIO_lines post"
proof (induction pre)
  case Nil
  then show ?case by simp
next
  case (Cons a pre)
  show ?case
  proof (cases "pre = []")
    case True
    with Cons.prems show ?thesis by simp
  next
    case False
    with Cons.prems have "last pre = LF" by simp
    with Cons.IH have IH: "StringIO_lines (pre @ post) = StringIO_lines pre @ StringIO_lines post"
      by simp
    obtain l ls where l: "StringIO_lines pre = l # ls"
      using False by (cases "StringIO_lines pre") simp_all
    show ?thesis by (simp add: IH l)
  qed
qed


lemma StringIO_lines_mid: "cs \<noteq> [] \<Longrightarrow> StringIO_lines cs = mid_lines cs"
  by (simp add: mid_lines_def)

lemma in_quoted_body:
  assumes "reader_rows d \<lparr>state = IN_QUOTED_FIELD, row_fields = R, field = F\<rparr> (mid_lines
           (concat (map (\<lambda>c. if c = quotechar then [quotechar, quotechar] else [c]) s)
             @ quotechar # cs)) = Inr rows"
  shows "reader_rows d \<lparr>state = QUOTE_IN_QUOTED_FIELD, row_fields = R, field = F @ s\<rparr>
           (mid_lines cs) = Inr rows"
  using assms
proof (induction s arbitrary: F)
  case Nil
  then show ?case
    by (simp add: reader_rows_mid_Cons parse_process_char_def)
next
  case (Cons c s)
  let ?rest = "concat (map (\<lambda>c. if c = quotechar then [quotechar, quotechar] else [c]) s)
             @ quotechar # cs"
  have "reader_rows d \<lparr>state = IN_QUOTED_FIELD, row_fields = R, field = F @ [c]\<rparr>
          (mid_lines ?rest) = Inr rows"
  proof (cases "c = quotechar")
    case True
    with Cons.prems show ?thesis
      by (auto simp: reader_rows_mid_Cons step_defs split: sum.splits if_splits)
  next
    case False
    note nq = this
    show ?thesis
    proof (cases "c = LF")
      case True
      with Cons.prems nq show ?thesis
        by (auto simp: reader_rows_mid_Cons reader_rows_EOL step_defs StringIO_lines_mid
            simp del: reader_rows.simps(2) split: sum.splits if_splits)
    next
      case False
      with Cons.prems nq show ?thesis
        by (auto simp: reader_rows_mid_Cons step_defs split: sum.splits if_splits)
    qed
  qed
  from Cons.IH [OF this] show ?case by simp
qed

lemma quoted_field_read:
  assumes "st = START_RECORD \<or> st = START_FIELD"
    and "reader_rows d \<lparr>state = st, row_fields = R, field = F\<rparr>
           (mid_lines (quote_field s @ cs)) = Inr rows"
  shows "reader_rows d \<lparr>state = QUOTE_IN_QUOTED_FIELD, row_fields = R, field = F @ s\<rparr>
           (mid_lines cs) = Inr rows"
proof -
  let ?body = "concat (map (\<lambda>c. if c = quotechar then [quotechar, quotechar] else [c]) s)"
  have "reader_rows d \<lparr>state = IN_QUOTED_FIELD, row_fields = R, field = F\<rparr>
          (mid_lines (?body @ quotechar # cs)) = Inr rows"
    using assms
    by (auto simp: quote_field_def reader_rows_mid_Cons step_defs split: sum.splits if_splits)
  from in_quoted_body [OF this] show ?thesis .
qed

lemma unquoted_field_read:
  assumes "d \<notin> set f" "LF \<notin> set f" "CR \<notin> set f"
    and "d \<noteq> quotechar" "d \<noteq> LF" "d \<noteq> CR"
    and "st = IN_FIELD
      \<or> ((st = START_RECORD \<or> st = START_FIELD) \<and> F = [] \<and> (f = [] \<or> hd f \<noteq> quotechar))"
    and "reader_rows d \<lparr>state = st, row_fields = R, field = F\<rparr> (mid_lines (f @ d # cs))
           = Inr rows"
  shows "reader_rows d \<lparr>state = START_FIELD, row_fields = R @ [F @ f], field = []\<rparr>
           (mid_lines cs) = Inr rows"
  using assms
proof (induction f arbitrary: st F)
  case Nil
  then show ?case
    by (auto simp: reader_rows_mid_Cons step_defs split: sum.splits if_splits)
next
  case (Cons c f)
  have "reader_rows d \<lparr>state = IN_FIELD, row_fields = R, field = F @ [c]\<rparr>
          (mid_lines (f @ d # cs)) = Inr rows"
    using Cons.prems
    by (auto simp: reader_rows_mid_Cons step_defs split: sum.splits if_splits)
  from Cons.IH [OF _ _ _ _ _ _ _ this] Cons.prems show ?case by simp
qed

lemma quoted_then_delimiter:
  assumes "d \<noteq> quotechar" "d \<noteq> LF" "d \<noteq> CR"
    and "reader_rows d \<lparr>state = QUOTE_IN_QUOTED_FIELD, row_fields = R, field = s\<rparr>
           (mid_lines (d # cs)) = Inr rows"
  shows "reader_rows d \<lparr>state = START_FIELD, row_fields = R @ [s], field = []\<rparr>
           (mid_lines cs) = Inr rows"
  using assms by (auto simp: reader_rows_mid_Cons step_defs split: sum.splits if_splits)

lemma written_fields_read:
  assumes "\<forall>f \<in> set before. well_written d f"
    and "d \<noteq> quotechar" "d \<noteq> LF" "d \<noteq> CR"
    and "st = START_RECORD \<or> st = START_FIELD"
    and "reader_rows d \<lparr>state = st, row_fields = R, field = []\<rparr>
           (mid_lines (concat (map (\<lambda>f. field_text f @ [d]) before) @ cs)) = Inr rows"
  shows "\<exists>st'. (st' = START_RECORD \<or> st' = START_FIELD)
           \<and> reader_rows d \<lparr>state = st', row_fields = R @ map field_cell before, field = []\<rparr>
               (mid_lines cs) = Inr rows"
  using assms
proof (induction before arbitrary: st R)
  case Nil
  then show ?case by auto
next
  case (Cons f before)
  let ?rest = "concat (map (\<lambda>f. field_text f @ [d]) before) @ cs"
  have step: "reader_rows d \<lparr>state = START_FIELD, row_fields = R @ [field_cell f], field = []\<rparr>
          (mid_lines ?rest) = Inr rows"
  proof (cases f)
    case (Unquoted u)
    with Cons.prems have
      "reader_rows d \<lparr>state = st, row_fields = R, field = []\<rparr> (mid_lines (u @ d # ?rest))
         = Inr rows"
      by simp
    from unquoted_field_read [OF _ _ _ Cons.prems(2-4) _ this] Cons.prems(1,5) Unquoted
    show ?thesis by simp
  next
    case (Quoted s)
    with Cons.prems have
      "reader_rows d \<lparr>state = st, row_fields = R, field = []\<rparr>
         (mid_lines (quote_field s @ d # ?rest)) = Inr rows"
      by simp
    from quoted_field_read [OF Cons.prems(5) this]
    have "reader_rows d \<lparr>state = QUOTE_IN_QUOTED_FIELD, row_fields = R, field = s\<rparr>
         (mid_lines (d # ?rest)) = Inr rows"
      by simp
    from quoted_then_delimiter [OF Cons.prems(2-4) this] Quoted
    show ?thesis by simp
  qed
  from Cons.IH [OF _ Cons.prems(2-4) _ step] Cons.prems(1) show ?case by auto
qed

lemma after_quoted_field:
  assumes "suffix = [] \<or> hd suffix = d \<or> hd suffix = LF \<or> hd suffix = CR"
    and "d \<noteq> quotechar"
    and "reader_rows d \<lparr>state = QUOTE_IN_QUOTED_FIELD, row_fields = R, field = s\<rparr>
           (mid_lines suffix) = Inr rows"
  shows "\<exists>ys rest. rows = (R @ [s] @ ys) # rest"
proof (cases suffix)
  case Nil
  with assms(3) show ?thesis
    by (auto simp: reader_rows_mid_Nil reader_rows_EOL step_defs parse_reset_def
        simp del: reader_rows.simps(2) split: sum.splits if_splits)
next
  case (Cons c cs)
  with assms(1) have c: "c = d \<or> c = LF \<or> c = CR" by simp
  show ?thesis
  proof (cases "c = LF")
    case True
    with assms(2,3) Cons show ?thesis
      by (auto simp: reader_rows_mid_Cons reader_rows_EOL step_defs
          simp del: reader_rows.simps(2) split: sum.splits if_splits)
  next
    case False
    with c assms(2,3) Cons obtain st where
      "reader_rows d \<lparr>state = st, row_fields = R @ [s], field = []\<rparr> (mid_lines cs) = Inr rows"
      by (auto simp: reader_rows_mid_Cons step_defs split: sum.splits if_splits)
    from reader_rows_extends [OF this] show ?thesis by simp
  qed
qed

text \<open>A quoted field longer than the field limit makes the reader raise.\<close>

lemma quote_field_no_quote:
  "quotechar \<notin> set s \<Longrightarrow> quote_field s = quotechar # s @ [quotechar]"
proof -
  assume "quotechar \<notin> set s"
  then have "concat (map (\<lambda>c. if c = quotechar then [quotechar, quotechar] else [c]) s) = s"
    by (induction s) auto
  then show ?thesis by (simp add: quote_field_def)
qed

lemma StringIO_lines_one:
  "LF \<notin> set cs \<Longrightarrow> cs \<noteq> [] \<Longrightarrow> StringIO_lines cs = [cs]"
proof (induction cs)
  case Nil
  then show ?case by simp
next
  case (Cons c cs)
  then show ?case by (cases "cs = []") auto
qed

lemma process_chars_append:
  "process_chars d r (xs @ ys) =
     (case process_chars d r xs of
        Inl e \<Rightarrow> Inl e
      | Inr r' \<Rightarrow> process_chars d r' ys)"
  by (induction xs arbitrary: r) (auto split: sum.splits)

lemma in_quoted_chars:
  "quotechar \<notin> set cs \<Longrightarrow> length F \<le> field_limit \<Longrightarrow>
     process_chars d \<lparr>state = IN_QUOTED_FIELD, row_fields = R, field = F\<rparr> cs =
       (if length F + length cs \<le> field_limit
        then Inr \<lparr>state = IN_QUOTED_FIELD, row_fields = R, field = F @ cs\<rparr>
        else Inl (csv_Error ''field larger than field limit (131072)''))"
proof (induction cs arbitrary: F)
  case Nil
  then show ?case by simp
next
  case (Cons c cs)
  show ?case
  proof (cases "length F < field_limit")
    case True
    with Cons have "process_chars d \<lparr>state = IN_QUOTED_FIELD, row_fields = R, field = F @ [c]\<rparr> cs =
       (if length (F @ [c]) + length cs \<le> field_limit
        then Inr \<lparr>state = IN_QUOTED_FIELD, row_fields = R, field = (F @ [c]) @ cs\<rparr>
        else Inl (csv_Error ''field larger than field limit (131072)''))"
      by simp
    with True Cons.prems show ?thesis
      by (auto simp: parse_process_char_def parse_add_char_def)
  next
    case False
    with Cons.prems show ?thesis
      by (auto simp: parse_process_char_def parse_add_char_def)
  qed
qed

lemma quoted_field_over_limit:
  assumes "quotechar \<notin> set s" and "LF \<notin> set s" and "length s > field_limit"
  shows "csv_reader (quote_field s) [d] =
           Inl (csv_Error ''field larger than field limit (131072)'')"
proof -
  have lines: "StringIO_lines (quotechar # s @ [quotechar]) = [quotechar # s @ [quotechar]]"
    using assms(2) by (intro StringIO_lines_one) simp_all
  have first: "parse_process_char d parse_reset (Some quotechar) =
      Inr \<lparr>state = IN_QUOTED_FIELD, row_fields = [], field = []\<rparr>"
    by (simp add: parse_process_char_def start_field_def parse_reset_def)
  have "process_chars d \<lparr>state = IN_QUOTED_FIELD, row_fields = [], field = []\<rparr> (s @ [quotechar]) =
      Inl (csv_Error ''field larger than field limit (131072)'')"
    using assms(1,3) by (simp add: process_chars_append in_quoted_chars del: process_chars.simps)
  then have "process_line d parse_reset (quotechar # s @ [quotechar]) =
      Inl (csv_Error ''field larger than field limit (131072)'')"
    by (simp add: process_line_def first)
  then show ?thesis
    by (simp add: csv_reader_def quote_field_no_quote [OF assms(1)] lines
        del: StringIO_lines.simps)
qed

text \<open>
  Claim C7, as amended. Quoting follows the CSV convention. Take a line that starts
  at a record boundary of the input (\<open>pre\<close> is read as complete records): fields
  written unquoted or quoted, each followed by the delimiter, then a field written in
  double quotes, its own double quotes doubled, whose content \<open>s\<close> may contain
  delimiters, newlines and carriage returns, then the end of the input, or a
  delimiter or a line end followed by any text. Whenever parsing returns rows, the
  quoted field is one cell of its row and that cell is exactly \<open>s\<close>: it is not split
  at the delimiters or newlines inside the quotes.
\<close>

theorem quoted_field_is_one_cell:
  assumes "d \<noteq> quotechar" and "d \<noteq> LF" and "d \<noteq> CR"
    and "pre = [] \<or> last pre = LF"
    and "feed_lines d parse_reset (StringIO_lines pre) = Inr (rows1, parse_reset)"
    and "\<forall>f \<in> set before. well_written d f"
    and "suffix = [] \<or> hd suffix = d \<or> hd suffix = LF \<or> hd suffix = CR"
    and "csv_reader (pre @ concat (map (\<lambda>f. field_text f @ [d]) before) @ quote_field s @ suffix)
           [d] = Inr rows"
  shows "length rows1 < length rows
    \<and> take (length rows1) rows = rows1
    \<and> take (length before + 1) (rows ! length rows1) = map field_cell before @ [s]
    \<and> rows ! length rows1 ! length before = s"
proof -
  let ?line = "concat (map (\<lambda>f. field_text f @ [d]) before) @ quote_field s @ suffix"
  have ne: "?line \<noteq> []" by (simp add: quote_field_def)
  from assms(8) have "reader_rows d parse_reset (StringIO_lines pre @ StringIO_lines ?line) = Inr rows"
    by (simp add: csv_reader_def StringIO_lines_append [OF assms(4)])
  then obtain rows2 where
    rows: "rows = rows1 @ rows2" and
    r2: "reader_rows d parse_reset (StringIO_lines ?line) = Inr rows2"
    using assms(5) by (auto simp: reader_rows_append split: sum.splits)
  from r2 ne have "reader_rows d \<lparr>state = START_RECORD, row_fields = [], field = []\<rparr>
      (mid_lines ?line) = Inr rows2"
    by (simp add: StringIO_lines_mid parse_reset_def)
  from written_fields_read [OF assms(6) assms(1-3) _ this]
  obtain st' where st': "st' = START_RECORD \<or> st' = START_FIELD" and
    "reader_rows d \<lparr>state = st', row_fields = [] @ map field_cell before, field = []\<rparr>
       (mid_lines (quote_field s @ suffix)) = Inr rows2"
    by auto
  from quoted_field_read [OF st' this(2)]
  have "reader_rows d \<lparr>state = QUOTE_IN_QUOTED_FIELD, row_fields = map field_cell before,
          field = s\<rparr> (mid_lines suffix) = Inr rows2"
    by simp
  from after_quoted_field [OF assms(7) assms(1) this]
  obtain ys rest where "rows2 = (map field_cell before @ [s] @ ys) # rest" by blast
  with rows show ?thesis
    by (simp add: nth_append)
qed

theorem quoted_field_is_one_cell_witness:
  \<open>CHR '','' \<noteq> quotechar \<and> CHR '','' \<noteq> LF \<and> CHR '','' \<noteq> CR
   \<and> last ''h1,h2\<newline>'' = LF
   \<and> feed_lines CHR '','' parse_reset (StringIO_lines ''h1,h2\<newline>'') =
       Inr ([[''h1'', ''h2'']], parse_reset)
   \<and> CHR '','' \<notin> set ''x'' \<and> LF \<notin> set ''x'' \<and> CR \<notin> set ''x'' \<and> hd ''x'' \<noteq> quotechar
   \<and> hd '',z\<newline>last'' = CHR '',''
   \<and> ''h1,h2\<newline>'' @ concat (map (\<lambda>f. field_text f @ '','') [Unquoted ''x'', Quoted ''a,b''])
        @ quote_field ''c\<newline>d,e'' @ '',z\<newline>last''
       = ''h1,h2\<newline>x,"a,b","c\<newline>d,e",z\<newline>last''
   \<and> csv_reader ''h1,h2\<newline>x,"a,b","c\<newline>d,e",z\<newline>last'' '','' =
       Inr [[''h1'', ''h2''], [''x'', ''a,b'', ''c\<newline>d,e'', ''z''], [''last'']]
   \<and> [[''h1'', ''h2''], [''x'', ''a,b'', ''c\<newline>d,e'', ''z''], [''last'']] ! length [[''h1'', ''h2'']]
        ! length [Unquoted ''x'', Quoted ''a,b''] = ''c\<newline>d,e''\<close>
proof -
  have h1: "CHR '','' \<noteq> quotechar" and h2: "CHR '','' \<noteq> LF" and h3: "CHR '','' \<noteq> CR"
    by (simp_all add: quotechar_def LF_def CR_def)
  have h4: "''h1,h2\<newline>'' = [] \<or> last ''h1,h2\<newline>'' = LF"
    by (simp add: LF_def)
  have h5: "feed_lines CHR '','' parse_reset (StringIO_lines ''h1,h2\<newline>'') =
       Inr ([[''h1'', ''h2'']], parse_reset)"
    by (simp add: reader_defs)
  have h6: "\<forall>f \<in> set [Unquoted ''x'', Quoted ''a,b'']. well_written CHR '','' f"
    by (simp add: quotechar_def LF_def CR_def)
  have h7: "'',z\<newline>last'' = [] \<or> hd '',z\<newline>last'' = CHR '','' \<or> hd '',z\<newline>last'' = LF
      \<or> hd '',z\<newline>last'' = CR"
    by simp
  have h8: \<open>csv_reader (''h1,h2\<newline>''
        @ concat (map (\<lambda>f. field_text f @ '','') [Unquoted ''x'', Quoted ''a,b''])
        @ quote_field ''c\<newline>d,e'' @ '',z\<newline>last'') '','' =
       Inr [[''h1'', ''h2''], [''x'', ''a,b'', ''c\<newline>d,e'', ''z''], [''last'']]\<close>
    by (simp add: reader_defs quote_field_def)
  have lit: \<open>csv_reader ''h1,h2\<newline>x,"a,b","c\<newline>d,e",z\<newline>last'' '','' =
       Inr [[''h1'', ''h2''], [''x'', ''a,b'', ''c\<newline>d,e'', ''z''], [''last'']]\<close>
    by (simp add: reader_defs)
  have enc: \<open>''h1,h2\<newline>'' @ concat (map (\<lambda>f. field_text f @ '','') [Unquoted ''x'', Quoted ''a,b''])
        @ quote_field ''c\<newline>d,e'' @ '',z\<newline>last''
       = ''h1,h2\<newline>x,"a,b","c\<newline>d,e",z\<newline>last''\<close>
    by (simp add: quote_field_def quotechar_def)
  show ?thesis
    using h1 h2 h3 h4 h5 h7 lit enc
      quoted_field_is_one_cell [OF h1 h2 h3 h4 h5 h6 h7 h8]
    by (simp add: quotechar_def LF_def CR_def)
qed

text \<open>
  The claim as first stated, for any line with a quoted field, fails on a quoted
  field that is longer than the field limit: the field of 131072 letters, a comma
  and no more makes the reader raise, no cell is parsed, and \<open>csv_to_md_table\<close>
  returns the error string.
\<close>

theorem quoted_field_over_limit_counterexample:
  "CHR '','' \<in> set (replicate 131072 CHR ''a'' @ '','')
   \<and> csv_reader (quote_field (replicate 131072 CHR ''a'' @ '','')) '','' =
       Inl (csv_Error ''field larger than field limit (131072)'')
   \<and> csv_to_md_table (quote_field (replicate 131072 CHR ''a'' @ '','')) '','' =
       Inr ''An error occurred: field larger than field limit (131072)''"
proof -
  have h: "csv_reader (quote_field (replicate 131072 CHR ''a'' @ '','')) '','' =
       Inl (csv_Error ''field larger than field limit (131072)'')"
    by (rule quoted_field_over_limit) (simp_all add: quotechar_def LF_def field_limit_def)
  then show ?thesis
    by (simp add: csv_to_md_table_def csv_to_md_table_try_def)
qed

text \<open>
  Claim C9, as amended. A blank line (\<open>\n\<close> or \<open>\r\n\<close>) that follows at least one
  complete record, the header, and is not inside an open quoted field parses to the
  row of no cells, when the text after it parses; that row is rendered as the
  header's number of empty cells, \<open>|  |  |  |\<close> under a header of three columns.
\<close>

theorem blank_line_renders_empty_cells:
  assumes "pre = [] \<or> last pre = LF"
    and "feed_lines d parse_reset (StringIO_lines pre) = Inr (header_row # rows1, parse_reset)"
    and "blank = [LF] \<or> blank = [CR, LF]"
    and "csv_reader post [d] = Inr rows2"
  shows "csv_reader (pre @ blank @ post) [d] = Inr (header_row # rows1 @ [[]] @ rows2)
    \<and> csv_to_md_table (pre @ blank @ post) [d] =
        Inr (str_join [LF]
          ([md_line header_row, md_line (replicate (length header_row) ''---'')]
            @ map (\<lambda>row. md_line (fit_row header_row row)) rows1
            @ [md_line (replicate (length header_row) [])]
            @ map (\<lambda>row. md_line (fit_row header_row row)) rows2))
    \<and> (length header_row = 3 \<longrightarrow> md_line (replicate (length header_row) []) = ''|  |  |  |'')"
proof -
  have b: "blank = [] \<or> last blank = LF" using assms(3) by auto
  have lines: "StringIO_lines (pre @ blank @ post) =
      StringIO_lines pre @ [blank] @ StringIO_lines post"
    using assms(3)
    by (auto simp: StringIO_lines_append [OF assms(1)] StringIO_lines_append [OF b] LF_def CR_def)
  have fb: "feed_lines d parse_reset [blank] = Inr ([[]], parse_reset)"
    using assms(3) by (auto simp: process_line_def step_defs parse_reset_def)
  have post: "reader_rows d parse_reset (StringIO_lines post) = Inr rows2"
    using assms(4) by (simp add: csv_reader_def)
  have "reader_rows d parse_reset ([blank] @ StringIO_lines post) = Inr ([[]] @ rows2)"
    by (simp only: reader_rows_append [of d parse_reset "[blank]"] fb post sum.case prod.case)
  then have rows: "csv_reader (pre @ blank @ post) [d] = Inr (header_row # rows1 @ [[]] @ rows2)"
    using assms(2)
    by (simp add: csv_reader_def lines
        reader_rows_append [of d parse_reset "StringIO_lines pre"]
        del: feed_lines.simps reader_rows.simps)
  have "fit_row header_row [] = replicate (length header_row) []"
    by (simp add: fit_row_def)
  then have table: "csv_to_md_table (pre @ blank @ post) [d] =
        Inr (str_join [LF]
          ([md_line header_row, md_line (replicate (length header_row) ''---'')]
            @ map (\<lambda>row. md_line (fit_row header_row row)) rows1
            @ [md_line (replicate (length header_row) [])]
            @ map (\<lambda>row. md_line (fit_row header_row row)) rows2))"
    using rows by (simp add: csv_to_md_table_rows data_rows_loop_map)
  have "length header_row = 3 \<longrightarrow> md_line (replicate (length header_row) []) = ''|  |  |  |''"
    by (simp add: md_line_def numeral_3_eq_3)
  with rows table show ?thesis by blast
qed

theorem blank_line_renders_empty_cells_witness:
  "last ''Name,Age,City\<newline>John,30,NY\<newline>'' = LF
   \<and> feed_lines CHR '','' parse_reset (StringIO_lines ''Name,Age,City\<newline>John,30,NY\<newline>'') =
       Inr ([''Name'', ''Age'', ''City''] # [[''John'', ''30'', ''NY'']], parse_reset)
   \<and> csv_reader ''Jane,25,LA'' '','' = Inr [[''Jane'', ''25'', ''LA'']]
   \<and> csv_reader ''Name,Age,City\<newline>John,30,NY\<newline>\<newline>Jane,25,LA'' '','' =
       Inr [[''Name'', ''Age'', ''City''], [''John'', ''30'', ''NY''], [], [''Jane'', ''25'', ''LA'']]
   \<and> csv_to_md_table ''Name,Age,City\<newline>John,30,NY\<newline>\<newline>Jane,25,LA'' '','' =
       Inr ''| Name | Age | City |\<newline>| --- | --- | --- |\<newline>| John | 30 | NY |\<newline>|  |  |  |\<newline>| Jane | 25 | LA |''"
proof -
  have h1: "''Name,Age,City\<newline>John,30,NY\<newline>'' = [] \<or> last ''Name,Age,City\<newline>John,30,NY\<newline>'' = LF"
    by (simp add: LF_def)
  have h2: "feed_lines CHR '','' parse_reset (StringIO_lines ''Name,Age,City\<newline>John,30,NY\<newline>'') =
       Inr ([''Name'', ''Age'', ''City''] # [[''John'', ''30'', ''NY'']], parse_reset)"
    by (simp add: reader_defs)
  have h3: "[LF] = [LF] \<or> [LF] = [CR, LF]" by simp
  have h4: "csv_reader ''Jane,25,LA'' '','' = Inr [[''Jane'', ''25'', ''LA'']]"
    by (simp add: reader_defs)
  show ?thesis
    using h1 h2 h4 blank_line_renders_empty_cells [OF h1 h2 h3 h4]
    by (simp add: md_line_def fit_row_def LF_def)
qed

text \<open>
  The claim as first stated, for every blank line after the header, fails on
  \<open>a,b\n"x\n\ny",z\<close>: the third line of the input is blank, the reader is inside the
  quoted field \<open>x\n\ny\<close> there, and the rows are the header and one data row, none of
  them empty.
\<close>

theorem blank_line_inside_quotes_counterexample:
  \<open>StringIO_lines ''a,b\<newline>"x\<newline>\<newline>y",z'' ! 2 = [LF]
   \<and> csv_reader ''a,b\<newline>"x\<newline>\<newline>y",z'' '','' = Inr [[''a'', ''b''], [''x\<newline>\<newline>y'', ''z'']]
   \<and> [] \<notin> set [[''a'', ''b''], [''x\<newline>\<newline>y'', ''z'']]
   \<and> csv_to_md_table ''a,b\<newline>"x\<newline>\<newline>y",z'' '','' =
       Inr ''| a | b |\<newline>| --- | --- |\<newline>| x\<newline>\<newline>y | z |''\<close>
  by (simp add: table_defs reader_defs)

end
